theory Spec2Isabelle
  imports Complex_Main
begin

section \<open>The metrics uploader of \<open>gear/metrics/metrics.py\<close>\<close>

text \<open>
  The module keeps two insertion-ordered dictionaries of monitoring points (counters and
  gauges) and a dictionary of gauge callbacks, and a loop that samples the callbacks and
  pushes everything to the monitoring backend once per \<open>MIN_GRANULARITY_SECS\<close>.

  Conventions of the embedding:
  \<^item> a Python \<open>dict\<close> is an association list in insertion order (\<open>items()\<close> iterates in
    that order; assigning to a present key keeps its position), and \<open>defaultdict(Point)\<close>
    inserts a default point when a missing key is read;
  \<^item> a protobuf \<open>double\<close> is a \<open>real\<close>: the only arithmetic of the module is adding 1 to
    a count, which binary64 does exactly below \<open>2^53\<close>;
  \<^item> a protobuf timestamp is a \<open>nat option\<close>, \<open>None\<close> for a field that was never set;
  \<^item> everything outside the object is the \<open>world\<close>: the wall clock, the requests handed to
    the backend, and the rest of the process (\<open>ext\<close>), which gauge callbacks and the
    backend client read and change;
  \<^item> a raised exception is the \<open>Inl\<close> side of a sum.
\<close>

subsection \<open>Module constants\<close>

definition PROJECT_ID :: string where "PROJECT_ID = ''hail-vdc''"
definition CLUSTER_NAME :: string where "CLUSTER_NAME = ''vdc''"
definition RESOURCE_TYPE :: string where "RESOURCE_TYPE = ''k8s_container''"
definition METRIC_BASE :: string where "METRIC_BASE = ''custom.googleapis.com''"
definition MIN_GRANULARITY_SECS :: nat where "MIN_GRANULARITY_SECS = 60"

subsection \<open>Data\<close>

type_synonym time = nat

datatype exn = GoogleAPIError string | OtherException string

record time_interval =
  start_time :: "time option"
  end_time :: "time option"

text \<open>\<open>monitoring_v3.Point\<close>; \<open>double_value\<close> stands for \<open>point.value.double_value\<close>.\<close>

record point =
  double_value :: real
  interval :: time_interval

definition Point :: point where
  "Point = \<lparr>double_value = 0, interval = \<lparr>start_time = None, end_time = None\<rparr>\<rparr>"

datatype metric_kind = METRIC_KIND_UNSPECIFIED | GAUGE | DELTA | CUMULATIVE

record monitored_resource =
  mr_type :: string
  mr_labels :: "string \<rightharpoonup> string"

text \<open>\<open>monitoring_v3.TimeSeries\<close>; \<open>metric_type\<close> stands for \<open>series.metric.type\<close>.\<close>

record time_series_rec =
  metric_type :: string
  metric_kind :: metric_kind
  resource :: monitored_resource
  points :: "point list"

definition TimeSeries :: time_series_rec where
  "TimeSeries = \<lparr>metric_type = [], metric_kind = METRIC_KIND_UNSPECIFIED,
                  resource = \<lparr>mr_type = [], mr_labels = Map.empty\<rparr>, points = []\<rparr>"

record create_time_series_request =
  request_name :: string
  time_series :: "time_series_rec list"

record resource_data =
  resource_type :: string
  cluster_name :: string
  namespace_name :: string
  location :: string
  container_name :: string
  pod_name :: string

subsection \<open>The world outside the object\<close>

text \<open>
  \<open>wall w n\<close> is what the \<open>n\<close>-th call of \<open>datetime.datetime.now()\<close> returns and \<open>reads\<close>
  counts the calls made so far; \<open>sent\<close> lists the requests handed to the backend client,
  oldest first. A gauge callback and the backend client see \<open>ext\<close> only: they return a
  value or raise, and leave \<open>ext\<close> changed.
\<close>

record 'x world =
  wall :: "nat \<Rightarrow> time"
  reads :: nat
  sent :: "create_time_series_request list"
  ext :: 'x

type_synonym 'x callback = "'x \<Rightarrow> (exn + real) \<times> 'x"
type_synonym 'x sink = "create_time_series_request \<Rightarrow> 'x \<Rightarrow> (exn + unit) \<times> 'x"

definition now :: "'x world \<Rightarrow> time \<times> 'x world" where
  "now w = (wall w (reads w), w\<lparr>reads := Suc (reads w)\<rparr>)"

text \<open>\<open>self.client.create_time_series(series_request)\<close>: one call to the backend.\<close>

definition create_time_series ::
  "'x sink \<Rightarrow> create_time_series_request \<Rightarrow> 'x world \<Rightarrow> (exn + unit) \<times> 'x world" where
  "create_time_series cl req w =
     (case cl req (ext w) of (r, x) \<Rightarrow> (r, w\<lparr>sent := sent w @ [req], ext := x\<rparr>))"

text \<open>\<open>client.common_project_path\<close> of the client library formats \<open>projects/{project}\<close>.\<close>

definition common_project_path :: "string \<Rightarrow> string" where
  "common_project_path project = ''projects/'' @ project"

subsection \<open>Dictionaries\<close>

text \<open>\<open>d[k] = v\<close>\<close>

fun dict_set :: "'k \<Rightarrow> 'v \<Rightarrow> ('k \<times> 'v) list \<Rightarrow> ('k \<times> 'v) list" where
  "dict_set k v [] = [(k, v)]"
| "dict_set k v ((k', v') # d) =
     (if k' = k then (k', v) # d else (k', v') # dict_set k v d)"

text \<open>
  \<open>d[k].field = e\<close> on a \<open>defaultdict\<close> with default \<open>dflt\<close>: the entry is created when
  missing, then changed in place by \<open>f\<close>.
\<close>

fun dict_modify :: "'v \<Rightarrow> ('v \<Rightarrow> 'v) \<Rightarrow> 'k \<Rightarrow> ('k \<times> 'v) list \<Rightarrow> ('k \<times> 'v) list" where
  "dict_modify dflt f k [] = [(k, f dflt)]"
| "dict_modify dflt f k ((k', v) # d) =
     (if k' = k then (k', f v) # d else (k', v) # dict_modify dflt f k d)"

subsection \<open>\<open>ResourceData\<close>\<close>

definition add_to :: "resource_data \<Rightarrow> time_series_rec \<Rightarrow> time_series_rec" where
  "add_to self gcp_series =
     gcp_series\<lparr>resource :=
       \<lparr>mr_type = resource_type self,
        mr_labels = (mr_labels (resource gcp_series))
          (''cluster_name'' \<mapsto> cluster_name self,
           ''namespace_name'' \<mapsto> namespace_name self,
           ''location'' \<mapsto> location self,
           ''container_name'' \<mapsto> container_name self,
           ''pod_name'' \<mapsto> pod_name self)\<rparr>\<rparr>"

subsection \<open>\<open>Metrics\<close>\<close>

record 'x metrics =
  project_id :: string
  resource_data :: resource_data
  counters :: "(string \<times> point) list"
  gauges :: "(string \<times> point) list"
  gauge_callbacks :: "(string \<times> 'x callback) list"
  client :: "'x sink"

text \<open>\<open>Metrics.__init__\<close>; the backend client it constructs is the third argument.\<close>

definition Metrics :: "string \<Rightarrow> resource_data \<Rightarrow> 'x sink \<Rightarrow> 'x metrics" where
  "Metrics pid rd cl =
     \<lparr>project_id = pid, resource_data = rd, counters = [], gauges = [],
      gauge_callbacks = [], client = cl\<rparr>"

text \<open>
  \<open>init\<close>: the module global \<open>metrics_uploader\<close> is the last argument and the result;
  \<open>ns\<close> is \<open>deploy_config.default_namespace()\<close>.
\<close>

definition init :: "string \<Rightarrow> 'x sink \<Rightarrow> 'x metrics option \<Rightarrow> 'x metrics option" where
  "init ns cl metrics_uploader =
     (let rd = \<lparr>resource_type = RESOURCE_TYPE, cluster_name = CLUSTER_NAME,
                namespace_name = ns, location = ''us-central1-a'',
                container_name = ''ci'', pod_name = ''ci''\<rparr>
      in if metrics_uploader = None then Some (Metrics PROJECT_ID rd cl)
         else metrics_uploader)"

text \<open>
  \<open>increment\<close>: two statements, each reading \<open>self.counters[metric_name]\<close>; the clock is
  read once, by the second.
\<close>

definition increment :: "'x metrics \<Rightarrow> string \<Rightarrow> 'x world \<Rightarrow> 'x metrics \<times> 'x world" where
  "increment self metric_name w =
     (let c1 = dict_modify Point (\<lambda>p. p\<lparr>double_value := double_value p + 1\<rparr>)
                 metric_name (counters self)
      in case now w of
           (t, w') \<Rightarrow>
             (self\<lparr>counters :=
                dict_modify Point (\<lambda>p. p\<lparr>interval := (interval p)\<lparr>start_time := Some t\<rparr>\<rparr>)
                  metric_name c1\<rparr>, w'))"

text \<open>
  The decorator \<open>gauge(metric_name)(fun)\<close>, on the initialised uploader (the module
  global \<open>metrics_uploader\<close>, passed explicitly).
\<close>

definition gauge :: "string \<Rightarrow> 'x callback \<Rightarrow> 'x metrics \<Rightarrow> 'x metrics" where
  "gauge metric_name fn metrics_uploader =
     metrics_uploader\<lparr>gauge_callbacks :=
       dict_set metric_name fn (gauge_callbacks metrics_uploader)\<rparr>"

text \<open>
  The loop of \<open>query_gauges\<close>. The right-hand side \<open>gauge_f()\<close> is evaluated before the
  target \<open>self.gauges[metric_name]\<close>, so a callback that raises creates no entry.
\<close>

fun query_gauges_loop ::
  "(string \<times> 'x callback) list \<Rightarrow> (string \<times> point) list \<Rightarrow> 'x \<Rightarrow>
     (exn + unit) \<times> (string \<times> point) list \<times> 'x" where
  "query_gauges_loop [] g x = (Inr (), g, x)"
| "query_gauges_loop ((metric_name, gauge_f) # rest) g x =
     (case gauge_f x of
        (Inl e, x') \<Rightarrow> (Inl e, g, x')
      | (Inr v, x') \<Rightarrow>
          query_gauges_loop rest
            (dict_modify Point (\<lambda>p. p\<lparr>double_value := v\<rparr>) metric_name g) x')"

definition query_gauges ::
  "'x metrics \<Rightarrow> 'x world \<Rightarrow> (exn + unit) \<times> 'x metrics \<times> 'x world" where
  "query_gauges self w =
     (case query_gauges_loop (gauge_callbacks self) (gauges self) (ext w) of
        (r, g, x) \<Rightarrow> (r, self\<lparr>gauges := g\<rparr>, w\<lparr>ext := x\<rparr>))"

text \<open>
  \<open>make_time_series\<close> stamps \<open>end_time\<close> on the point object it is given, which is the one
  stored in the dictionary, and appends a copy to the series: the stamped point is
  returned beside the series.
\<close>

definition make_time_series ::
  "'x metrics \<Rightarrow> string \<Rightarrow> point \<Rightarrow> metric_kind \<Rightarrow> 'x world \<Rightarrow>
     (time_series_rec \<times> point) \<times> 'x world" where
  "make_time_series self metric_name p kind w =
     (let gcp_series = add_to (resource_data self)
            (TimeSeries\<lparr>metric_type := METRIC_BASE @ ''/'' @ metric_name,
                        metric_kind := kind\<rparr>)
      in case now w of
           (t, w') \<Rightarrow>
             (let p' = p\<lparr>interval := (interval p)\<lparr>end_time := Some t\<rparr>\<rparr>
              in ((gcp_series\<lparr>points := points gcp_series @ [p']\<rparr>, p'), w')))"

text \<open>The list comprehensions of \<open>push_metrics\<close> over \<open>items()\<close>.\<close>

fun make_all ::
  "'x metrics \<Rightarrow> metric_kind \<Rightarrow> (string \<times> point) list \<Rightarrow> 'x world \<Rightarrow>
     (time_series_rec list \<times> (string \<times> point) list) \<times> 'x world" where
  "make_all self kind [] w = (([], []), w)"
| "make_all self kind ((metric_name, p) # d) w =
     (case make_time_series self metric_name p kind w of
        ((ts, p'), w1) \<Rightarrow>
          (case make_all self kind d w1 of
             ((tss, d'), w2) \<Rightarrow> ((ts # tss, (metric_name, p') # d'), w2)))"

text \<open>The request \<open>push_metrics\<close> builds before it calls the client.\<close>

definition series_request ::
  "'x metrics \<Rightarrow> 'x world \<Rightarrow> create_time_series_request \<times> 'x metrics \<times> 'x world" where
  "series_request self w =
     (case make_all self CUMULATIVE (counters self) w of
        ((counter_series, cs), w1) \<Rightarrow>
          (case make_all self GAUGE (gauges self) w1 of
             ((gauge_series, gs), w2) \<Rightarrow>
               (\<lparr>request_name = common_project_path (project_id self),
                 time_series = counter_series @ gauge_series\<rparr>,
                self\<lparr>counters := cs, gauges := gs\<rparr>, w2)))"

text \<open>
  \<open>push_metrics\<close>: a \<open>GoogleAPIError\<close> is caught and raised again, any other exception is
  not caught; either way the two assignments that clear the dictionaries are not reached.
\<close>

definition push_metrics ::
  "'x metrics \<Rightarrow> 'x world \<Rightarrow> (exn + unit) \<times> 'x metrics \<times> 'x world" where
  "push_metrics self w =
     (case series_request self w of
        (req, s1, w1) \<Rightarrow>
          (case create_time_series (client self) req w1 of
             (Inl (GoogleAPIError m), w2) \<Rightarrow> (Inl (GoogleAPIError m), s1, w2)
           | (Inl e, w2) \<Rightarrow> (Inl e, s1, w2)
           | (Inr u, w2) \<Rightarrow> (Inr (), s1\<lparr>counters := [], gauges := []\<rparr>, w2)))"

subsection \<open>The loop\<close>

text \<open>
  The loop gives up control only in \<open>asyncio.sleep\<close>; what the other tasks of the process
  do to the uploader meanwhile is a list of calls.
\<close>

datatype 'x call = CallIncrement string | CallGauge string "'x callback"

fun asyncio_sleep ::
  "'x call list \<Rightarrow> 'x metrics \<Rightarrow> 'x world \<Rightarrow> 'x metrics \<times> 'x world" where
  "asyncio_sleep [] self w = (self, w)"
| "asyncio_sleep (CallIncrement n # cs) self w =
     (case increment self n w of (s', w') \<Rightarrow> asyncio_sleep cs s' w')"
| "asyncio_sleep (CallGauge n f # cs) self w = asyncio_sleep cs (gauge n f self) w"

text \<open>
  \<open>run\<close>, given what happens during each of the coming sleeps. \<open>while True\<close> has no exit:
  the result is \<open>Inl e\<close> when an iteration raised \<open>e\<close>, which ends the loop, and \<open>Inr ()\<close>
  when the loop went through every sleep of the schedule and is still running.
  Cancelling the task is not part of the model.
\<close>

fun run ::
  "'x call list list \<Rightarrow> 'x metrics \<Rightarrow> 'x world \<Rightarrow> (exn + unit) \<times> 'x metrics \<times> 'x world" where
  "run [] self w = (Inr (), self, w)"
| "run (calls # schedule) self w =
     (case asyncio_sleep calls self w of
        (s1, w1) \<Rightarrow>
          (case query_gauges s1 w1 of
             (Inl e, s2, w2) \<Rightarrow> (Inl e, s2, w2)
           | (Inr u, s2, w2) \<Rightarrow>
               if length (counters s2) > 0 \<or> length (gauges s2) > 0 then
                 (case push_metrics s2 w2 of
                    (Inl e, s3, w3) \<Rightarrow> (Inl e, s3, w3)
                  | (Inr u', s3, w3) \<Rightarrow> run schedule s3 w3)
               else run schedule s2 w2))"

subsection \<open>Concrete inputs\<close>

text \<open>
  A resource, a world whose clock reads 10, 20, 30, ... and whose \<open>ext\<close> is a log of what
  was called, two backend clients, four gauge callbacks, a fresh uploader and one with
  the counter \<open>a\<close> at 3 and the gauge \<open>b\<close> at 7.5 pending.
\<close>

definition example_resource :: resource_data where
  "example_resource =
     \<lparr>resource_type = ''k8s_container'', cluster_name = ''vdc'', namespace_name = ''default'',
      location = ''us-central1-a'', container_name = ''ci'', pod_name = ''ci''\<rparr>"

definition example_world :: "string list world" where
  "example_world = \<lparr>wall = (\<lambda>n. 10 * n + 10), reads = 0, sent = [], ext = []\<rparr>"

definition accepting_sink :: "string list sink" where
  "accepting_sink req x = (Inr (), x @ [''accepted''])"

definition failing_sink :: "string list sink" where
  "failing_sink req x = (Inl (GoogleAPIError ''unavailable''), x @ [''refused''])"

definition fn_A :: "string list callback" where
  "fn_A x = (Inr 1, x @ [''A called''])"

definition fn_B :: "string list callback" where
  "fn_B x = (Inr 2, x @ [''B called''])"

definition fn_b :: "string list callback" where
  "fn_b x = (Inr (15 / 2), x @ [''b called''])"

definition fn_bad :: "string list callback" where
  "fn_bad x = (Inl (OtherException ''bad''), x @ [''bad called''])"

definition example_metrics :: "string list sink \<Rightarrow> string list metrics" where
  "example_metrics cl = Metrics ''hail-vdc'' example_resource cl"

definition pending_metrics :: "string list sink \<Rightarrow> string list metrics" where
  "pending_metrics cl =
     (example_metrics cl)
       \<lparr>counters := [(''a'', \<lparr>double_value = 3,
                              interval = \<lparr>start_time = Some 4, end_time = None\<rparr>\<rparr>)],
        gauges := [(''b'', \<lparr>double_value = 15 / 2,
                            interval = \<lparr>start_time = None, end_time = None\<rparr>\<rparr>)]\<rparr>"

subsection \<open>A predicate on the gauge dictionary\<close>

text \<open>No point of the dictionary has a \<open>start_time\<close>.\<close>

definition never_started :: "(string \<times> point) list \<Rightarrow> bool" where
  "never_started d = list_all (\<lambda>e. start_time (interval (snd e)) = None) d"

lemmas example_defs = example_metrics_def Metrics_def example_resource_def example_world_def
  accepting_sink_def failing_sink_def fn_A_def fn_B_def fn_b_def fn_bad_def

lemmas metrics_defs = increment_def now_def Point_def gauge_def query_gauges_def
  make_time_series_def series_request_def push_metrics_def create_time_series_def
  add_to_def TimeSeries_def common_project_path_def METRIC_BASE_def Let_def

lemmas all_defs = pending_metrics_def example_defs metrics_defs

section \<open>Lemmas\<close>

subsection \<open>Dictionaries\<close>

lemma dict_set_twice: "dict_set k v2 (dict_set k v1 d) = dict_set k v2 d"
  by (induction d) auto

lemma dict_set_keys: "fst ` set (dict_set k v d) = insert k (fst ` set d)"
  by (induction k v d rule: dict_set.induct) (simp_all add: insert_commute)

lemma dict_set_distinct: "distinct (map fst d) \<Longrightarrow> distinct (map fst (dict_set k v d))"
  by (induction k v d rule: dict_set.induct) (auto simp: dict_set_keys)

lemma dict_set_mem: "distinct (map fst d) \<Longrightarrow> (k, v) \<in> set (dict_set k v d)"
  by (induction d) auto

lemma dict_modify_not_Nil: "dict_modify dflt f k d \<noteq> []"
  by (cases d) (auto split: if_splits)

lemma map_of_dict_modify_other: "n \<noteq> k \<Longrightarrow> map_of (dict_modify dflt f k d) n = map_of d n"
  by (induction d) auto

lemma map_of_dict_modify_same:
  "map_of (dict_modify dflt f k d) k = Some (f (case map_of d k of None \<Rightarrow> dflt | Some v \<Rightarrow> v))"
  by (induction d) auto

lemma filter_dict_modify:
  "k \<in> K \<Longrightarrow> filter (\<lambda>e. fst e \<notin> K) (dict_modify dflt f k d) = filter (\<lambda>e. fst e \<notin> K) d"
  by (induction d) auto

lemma dict_modify_list_all:
  "list_all (\<lambda>e. P (snd e)) d \<Longrightarrow> P (f dflt) \<Longrightarrow> (\<And>v. P v \<Longrightarrow> P (f v)) \<Longrightarrow>
     list_all (\<lambda>e. P (snd e)) (dict_modify dflt f k d)"
  by (induction dflt f k d rule: dict_modify.induct) auto

subsection \<open>Sampling\<close>

lemma query_gauges_loop_frame:
  "fst ` set cbs \<subseteq> K \<Longrightarrow> query_gauges_loop cbs g x = (r, g', x') \<Longrightarrow>
     filter (\<lambda>e. fst e \<notin> K) g' = filter (\<lambda>e. fst e \<notin> K) g"
proof (induction cbs arbitrary: g x)
  case Nil
  then show ?case by simp
next
  case (Cons c cbs)
  obtain n f where c: "c = (n, f)" by (cases c)
  obtain y x1 where fx: "f x = (y, x1)" by (cases "f x")
  show ?case
  proof (cases y)
    case (Inl e)
    with Cons.prems c fx show ?thesis by simp
  next
    case (Inr v)
    with Cons.prems c fx
    have "query_gauges_loop cbs (dict_modify Point (\<lambda>p. p\<lparr>double_value := v\<rparr>) n g) x1 = (r, g', x')"
      and "fst ` set cbs \<subseteq> K" and "n \<in> K"
      by auto
    then show ?thesis
      using Cons.IH [of "dict_modify Point (\<lambda>p. p\<lparr>double_value := v\<rparr>) n g" x1]
      by (simp add: filter_dict_modify)
  qed
qed

lemma query_gauges_loop_map_of:
  "n \<notin> fst ` set cbs \<Longrightarrow> query_gauges_loop cbs g x = (r, g', x') \<Longrightarrow> map_of g' n = map_of g n"
proof (induction cbs arbitrary: g x)
  case Nil
  then show ?case by simp
next
  case (Cons c cbs)
  obtain m f where c: "c = (m, f)" by (cases c)
  obtain y x1 where fx: "f x = (y, x1)" by (cases "f x")
  show ?case
  proof (cases y)
    case (Inl e)
    with Cons.prems c fx show ?thesis by simp
  next
    case (Inr v)
    with Cons.prems c fx
    have run: "query_gauges_loop cbs (dict_modify Point (\<lambda>p. p\<lparr>double_value := v\<rparr>) m g) x1 = (r, g', x')"
      and "n \<notin> fst ` set cbs" and "n \<noteq> m"
      by auto
    then show ?thesis
      using Cons.IH [of "dict_modify Point (\<lambda>p. p\<lparr>double_value := v\<rparr>) m g" x1]
      by (simp add: map_of_dict_modify_other)
  qed
qed

lemma query_gauges_loop_fail_fast:
  "query_gauges_loop pre g x = (Inr (), g1, x1) \<Longrightarrow> f x1 = (Inl e, x2) \<Longrightarrow>
     query_gauges_loop (pre @ (n, f) # post) g x = (Inl e, g1, x2)"
proof (induction pre arbitrary: g x)
  case Nil
  then show ?case by simp
next
  case (Cons c pre)
  obtain m h where c: "c = (m, h)" by (cases c)
  obtain y x' where hx: "h x = (y, x')" by (cases "h x")
  show ?case
  proof (cases y)
    case (Inl e')
    with Cons.prems c hx show ?thesis by simp
  next
    case (Inr v)
    with Cons.prems c hx show ?thesis
      using Cons.IH by simp
  qed
qed

lemma query_gauges_loop_nonempty:
  "query_gauges_loop cbs g x = (Inr (), g', x') \<Longrightarrow> cbs \<noteq> [] \<or> g \<noteq> [] \<Longrightarrow> g' \<noteq> []"
proof (induction cbs arbitrary: g x)
  case Nil
  then show ?case by simp
next
  case (Cons c cbs)
  obtain m h where c: "c = (m, h)" by (cases c)
  obtain y x1 where hx: "h x = (y, x1)" by (cases "h x")
  show ?case
  proof (cases y)
    case (Inl e')
    with Cons.prems c hx show ?thesis by simp
  next
    case (Inr v)
    with Cons.prems c hx
    have "query_gauges_loop cbs (dict_modify Point (\<lambda>p. p\<lparr>double_value := v\<rparr>) m g) x1 = (Inr (), g', x')"
      by simp
    then show ?thesis
      using Cons.IH [of "dict_modify Point (\<lambda>p. p\<lparr>double_value := v\<rparr>) m g" x1]
      by (simp add: dict_modify_not_Nil)
  qed
qed

lemma query_gauges_loop_records:
  "distinct (map fst cbs) \<Longrightarrow> (n, f) \<in> set cbs \<Longrightarrow>
   query_gauges_loop cbs g x = (Inr (), g', x') \<Longrightarrow>
     \<exists>p xa xb. map_of g' n = Some p \<and> f xa = (Inr (double_value p), xb)"
proof (induction cbs arbitrary: g x)
  case Nil
  then show ?case by simp
next
  case (Cons c cbs)
  obtain m h where c: "c = (m, h)" by (cases c)
  obtain y x1 where hx: "h x = (y, x1)" by (cases "h x")
  show ?case
  proof (cases y)
    case (Inl e')
    with Cons.prems c hx show ?thesis by simp
  next
    case (Inr v)
    let ?g1 = "dict_modify Point (\<lambda>p. p\<lparr>double_value := v\<rparr>) m g"
    from Inr Cons.prems c hx
    have rest: "query_gauges_loop cbs ?g1 x1 = (Inr (), g', x')"
      by simp
    show ?thesis
    proof (cases "(n, f) = (m, h)")
      case True
      with Cons.prems(1) c have "n \<notin> fst ` set cbs" by auto
      then have "map_of g' n = map_of ?g1 n"
        by (rule query_gauges_loop_map_of [OF _ rest])
      with True have "map_of g' n =
          Some ((case map_of g n of None \<Rightarrow> Point | Some q \<Rightarrow> q)\<lparr>double_value := v\<rparr>)"
        by (simp add: map_of_dict_modify_same)
      moreover from True hx Inr have "f x = (Inr v, x1)" by simp
      ultimately show ?thesis by force
    next
      case False
      with Cons.prems c have "(n, f) \<in> set cbs" and "distinct (map fst cbs)" by auto
      then show ?thesis using Cons.IH [OF _ _ rest] by simp
    qed
  qed
qed

lemma query_gauges_loop_never_started:
  "never_started g \<Longrightarrow> query_gauges_loop cbs g x = (r, g', x') \<Longrightarrow> never_started g'"
proof (induction cbs arbitrary: g x)
  case Nil
  then show ?case by simp
next
  case (Cons c cbs)
  obtain n f where c: "c = (n, f)" by (cases c)
  obtain y x1 where fx: "f x = (y, x1)" by (cases "f x")
  show ?case
  proof (cases y)
    case (Inl e)
    with Cons.prems c fx show ?thesis by simp
  next
    case (Inr v)
    let ?g1 = "dict_modify Point (\<lambda>p. p\<lparr>double_value := v\<rparr>) n g"
    from Inr Cons.prems c fx have rest: "query_gauges_loop cbs ?g1 x1 = (r, g', x')"
      by simp
    from Cons.prems(1) have "never_started ?g1"
      unfolding never_started_def
      by (rule dict_modify_list_all) (simp_all add: Point_def)
    then show ?thesis using Cons.IH rest by blast
  qed
qed

lemma query_gauges_sent: "query_gauges s w = (r, s', w') \<Longrightarrow> sent w' = sent w"
  by (auto simp: query_gauges_def split: prod.splits)

lemma query_gauges_idle:
  assumes "query_gauges s w = (Inr (), s', w')" and "gauges s' = []"
  shows "gauge_callbacks s = [] \<and> s' = s \<and> w' = w"
proof -
  obtain g x where l: "query_gauges_loop (gauge_callbacks s) (gauges s) (ext w) = (Inr (), g, x)"
    and s': "s' = s\<lparr>gauges := g\<rparr>" and w': "w' = w\<lparr>ext := x\<rparr>"
    using assms(1) by (auto simp: query_gauges_def split: prod.splits)
  from assms(2) s' have g: "g = []" by simp
  with query_gauges_loop_nonempty [OF l] have e: "gauge_callbacks s = []" and e': "gauges s = []"
    by auto
  with l have "x = ext w" by simp
  with e e' g s' w' show ?thesis by simp
qed

lemma query_gauges_never_started:
  "never_started (gauges s) \<Longrightarrow> query_gauges s w = (r, s', w') \<Longrightarrow> never_started (gauges s')"
  by (auto simp: query_gauges_def split: prod.splits dest: query_gauges_loop_never_started)

subsection \<open>Building and sending the request\<close>

lemma make_time_series_eq:
  "make_time_series s n p kind w =
     ((\<lparr>metric_type = METRIC_BASE @ ''/'' @ n, metric_kind = kind,
        resource = \<lparr>mr_type = resource_type (resource_data s),
           mr_labels = [''cluster_name'' \<mapsto> cluster_name (resource_data s),
                        ''namespace_name'' \<mapsto> namespace_name (resource_data s),
                        ''location'' \<mapsto> location (resource_data s),
                        ''container_name'' \<mapsto> container_name (resource_data s),
                        ''pod_name'' \<mapsto> pod_name (resource_data s)]\<rparr>,
        points = [\<lparr>double_value = double_value p,
                   interval = \<lparr>start_time = start_time (interval p),
                               end_time = Some (wall w (reads w))\<rparr>\<rparr>]\<rparr>,
       \<lparr>double_value = double_value p,
        interval = \<lparr>start_time = start_time (interval p),
                    end_time = Some (wall w (reads w))\<rparr>\<rparr>),
      w\<lparr>reads := Suc (reads w)\<rparr>)"
  by (simp add: make_time_series_def now_def add_to_def TimeSeries_def Let_def)

lemma make_all_length:
  "make_all s kind d w = ((tss, d'), w') \<Longrightarrow>
     length tss = length d \<and> length d' = length d \<and> w' = w\<lparr>reads := reads w + length d\<rparr>"
proof (induction d arbitrary: w tss d' w')
  case Nil
  then show ?case by simp
next
  case (Cons a d)
  obtain n p where a: "a = (n, p)" by (cases a)
  obtain ts p1 w1 where m: "make_time_series s n p kind w = ((ts, p1), w1)"
    by (metis prod.exhaust)
  obtain tss1 d1 w2 where r: "make_all s kind d w1 = ((tss1, d1), w2)"
    by (metis prod.exhaust)
  from m have w1: "w1 = w\<lparr>reads := Suc (reads w)\<rparr>"
    by (auto simp: make_time_series_def now_def Let_def)
  from Cons.prems a m r have "tss = ts # tss1" "d' = (n, p1) # d1" "w' = w2" by auto
  with Cons.IH [OF r] w1 show ?case by simp
qed

lemma make_all_nth:
  "make_all s kind d w = ((tss, d'), w') \<Longrightarrow> i < length d \<Longrightarrow>
     tss ! i = fst (fst (make_time_series s (fst (d ! i)) (snd (d ! i)) kind (w\<lparr>reads := reads w + i\<rparr>))) \<and>
     d' ! i = (fst (d ! i), snd (fst (make_time_series s (fst (d ! i)) (snd (d ! i)) kind (w\<lparr>reads := reads w + i\<rparr>))))"
proof (induction d arbitrary: w tss d' w' i)
  case Nil
  then show ?case by simp
next
  case (Cons a d)
  obtain n p where a: "a = (n, p)" by (cases a)
  obtain ts p1 w1 where m: "make_time_series s n p kind w = ((ts, p1), w1)"
    by (metis prod.exhaust)
  obtain tss1 d1 w2 where r: "make_all s kind d w1 = ((tss1, d1), w2)"
    by (metis prod.exhaust)
  from m have w1: "w1 = w\<lparr>reads := Suc (reads w)\<rparr>"
    by (auto simp: make_time_series_def now_def Let_def)
  from Cons.prems a m r have eqs: "tss = ts # tss1" "d' = (n, p1) # d1" by auto
  show ?case
  proof (cases i)
    case 0
    with eqs a m show ?thesis by simp
  next
    case (Suc j)
    with Cons.prems have "j < length d" by simp
    from Cons.IH [OF r this] Suc eqs a w1 show ?thesis by simp
  qed
qed

lemma make_all_kept:
  "make_all s kind d w = ((tss, d'), w') \<Longrightarrow>
     map (\<lambda>e. (fst e, double_value (snd e), start_time (interval (snd e)))) d' =
     map (\<lambda>e. (fst e, double_value (snd e), start_time (interval (snd e)))) d"
proof (induction d arbitrary: w tss d' w')
  case Nil
  then show ?case by simp
next
  case (Cons a d)
  obtain n p where a: "a = (n, p)" by (cases a)
  obtain ts p1 w1 where m: "make_time_series s n p kind w = ((ts, p1), w1)"
    by (metis prod.exhaust)
  obtain tss1 d1 w2 where r: "make_all s kind d w1 = ((tss1, d1), w2)"
    by (metis prod.exhaust)
  from m have p1: "double_value p1 = double_value p" "start_time (interval p1) = start_time (interval p)"
    by (auto simp: make_time_series_def now_def Let_def)
  from Cons.prems a m r have "d' = (n, p1) # d1" by auto
  with Cons.IH [OF r] p1 a show ?case by simp
qed

lemma series_request_kept:
  assumes "series_request s w = (req, s', w')"
  shows "map (\<lambda>e. (fst e, double_value (snd e), start_time (interval (snd e)))) (counters s') =
         map (\<lambda>e. (fst e, double_value (snd e), start_time (interval (snd e)))) (counters s)"
    and "map (\<lambda>e. (fst e, double_value (snd e), start_time (interval (snd e)))) (gauges s') =
         map (\<lambda>e. (fst e, double_value (snd e), start_time (interval (snd e)))) (gauges s)"
proof -
  obtain cser cs w1 where c: "make_all s CUMULATIVE (counters s) w = ((cser, cs), w1)"
    by (metis prod.exhaust)
  obtain gser gs w2 where g: "make_all s GAUGE (gauges s) w1 = ((gser, gs), w2)"
    by (metis prod.exhaust)
  from assms c g have s': "s' = s\<lparr>counters := cs, gauges := gs\<rparr>"
    by (simp add: series_request_def)
  from s' make_all_kept [OF c]
  show "map (\<lambda>e. (fst e, double_value (snd e), start_time (interval (snd e)))) (counters s') =
         map (\<lambda>e. (fst e, double_value (snd e), start_time (interval (snd e)))) (counters s)"
    by simp
  from s' make_all_kept [OF g]
  show "map (\<lambda>e. (fst e, double_value (snd e), start_time (interval (snd e)))) (gauges s') =
         map (\<lambda>e. (fst e, double_value (snd e), start_time (interval (snd e)))) (gauges s)"
    by simp
qed

lemma series_request_sent: "series_request s w = (req, s1, w1) \<Longrightarrow> sent w1 = sent w"
  by (auto simp: series_request_def split: prod.splits dest!: make_all_length)

lemma gauge_series_nth:
  assumes "series_request s w = (req, s', w')" and "i < length (gauges s)"
  shows "time_series req ! (length (counters s) + i) =
      fst (fst (make_time_series s (fst (gauges s ! i)) (snd (gauges s ! i)) GAUGE
        (w\<lparr>reads := reads w + length (counters s) + i\<rparr>)))"
    and "length (time_series req) = length (counters s) + length (gauges s)"
proof -
  obtain cser cs w1 where c: "make_all s CUMULATIVE (counters s) w = ((cser, cs), w1)"
    by (metis prod.exhaust)
  obtain gser gs w2 where g: "make_all s GAUGE (gauges s) w1 = ((gser, gs), w2)"
    by (metis prod.exhaust)
  from assms(1) c g have req: "time_series req = cser @ gser"
    by (auto simp: series_request_def)
  from make_all_length [OF c] have lc: "length cser = length (counters s)"
    and w1: "w1 = w\<lparr>reads := reads w + length (counters s)\<rparr>"
    by simp_all
  from make_all_length [OF g] have lg: "length gser = length (gauges s)" by simp
  from make_all_nth [OF g assms(2)] w1
  have "gser ! i = fst (fst (make_time_series s (fst (gauges s ! i)) (snd (gauges s ! i)) GAUGE
        (w\<lparr>reads := reads w + length (counters s) + i\<rparr>)))"
    by simp
  with req lc show "time_series req ! (length (counters s) + i) =
      fst (fst (make_time_series s (fst (gauges s ! i)) (snd (gauges s ! i)) GAUGE
        (w\<lparr>reads := reads w + length (counters s) + i\<rparr>)))"
    by (simp add: nth_append)
  from req lc lg show "length (time_series req) = length (counters s) + length (gauges s)"
    by simp
qed

lemma push_metrics_cases:
  assumes "series_request s w = (req, s1, w1)"
  shows "push_metrics s w =
     (case client s req (ext w1) of
        (Inl e, x) \<Rightarrow> (Inl e, s1, w1\<lparr>sent := sent w1 @ [req], ext := x\<rparr>)
      | (Inr u, x) \<Rightarrow> (Inr (), s1\<lparr>counters := [], gauges := []\<rparr>, w1\<lparr>sent := sent w1 @ [req], ext := x\<rparr>))"
  using assms
  by (simp add: push_metrics_def create_time_series_def split: prod.splits sum.splits exn.splits)

lemma never_started_kept:
  assumes "map (\<lambda>e. (fst e, double_value (snd e), start_time (interval (snd e)))) d' =
           map (\<lambda>e. (fst e, double_value (snd e), start_time (interval (snd e)))) d"
    and "never_started d"
  shows "never_started d'"
proof -
  have "never_started xs =
      list_all (\<lambda>t. snd (snd t) = None)
        (map (\<lambda>e. (fst e, double_value (snd e), start_time (interval (snd e)))) xs)" for xs
    by (simp add: never_started_def list_all_iff)
  with assms show ?thesis by simp
qed

lemma push_metrics_never_started:
  assumes "never_started (gauges s)" and "push_metrics s w = (r, s', w')"
  shows "never_started (gauges s')"
proof -
  obtain req s1 w1 where sr: "series_request s w = (req, s1, w1)"
    by (metis prod.exhaust)
  from never_started_kept [OF series_request_kept(2) [OF sr] assms(1)]
  have s1: "never_started (gauges s1)" .
  from assms(2) have "s' = s1 \<or> s' = s1\<lparr>counters := [], gauges := []\<rparr>"
    unfolding push_metrics_cases [OF sr] by (auto split: prod.splits sum.splits)
  with s1 show ?thesis by (auto simp: never_started_def)
qed

subsection \<open>Calls of other tasks\<close>

lemma increment_sent: "increment s n w = (s', w') \<Longrightarrow> sent w' = sent w \<and> ext w' = ext w"
  by (auto simp: increment_def now_def Let_def)

lemma increment_gauges: "increment s n w = (s', w') \<Longrightarrow> gauges s' = gauges s"
  by (auto simp: increment_def now_def Let_def)

lemma asyncio_sleep_sent: "asyncio_sleep calls s w = (s', w') \<Longrightarrow> sent w' = sent w"
proof (induction calls s w rule: asyncio_sleep.induct)
  case (1 self w)
  then show ?case by simp
next
  case (2 n cs self w)
  obtain s1 w1 where i: "increment self n w = (s1, w1)" by (metis prod.exhaust)
  with 2 show ?case using increment_sent [OF i] by simp
next
  case (3 n f cs self w)
  then show ?case by simp
qed

lemma asyncio_sleep_gauges: "asyncio_sleep calls s w = (s', w') \<Longrightarrow> gauges s' = gauges s"
proof (induction calls s w rule: asyncio_sleep.induct)
  case (1 self w)
  then show ?case by simp
next
  case (2 n cs self w)
  obtain s1 w1 where i: "increment self n w = (s1, w1)" by (metis prod.exhaust)
  with 2 show ?case using increment_gauges [OF i] by simp
next
  case (3 n f cs self w)
  then show ?case by (simp add: gauge_def)
qed

section \<open>The claims\<close>

subsection \<open>Counters\<close>

text \<open>
  C1. The claim: the interval \<open>start_time\<close> of a counter is set once per accumulation
  period, by the increment that creates the entry, and later increments of the same name
  leave it unchanged. The code assigns \<open>start_time\<close> in every call of \<open>increment\<close> (the
  line marked FIXME): with the clock reading 10 at the first call and 20 at the second,
  the counter \<open>x\<close> has \<open>start_time\<close> 10 after the first increment and 20 after the second.
\<close>

theorem increment_overwrites_start_time:
  "(case increment (example_metrics accepting_sink) ''x'' example_world of
      (s1, w1) \<Rightarrow>
        (case increment s1 ''x'' w1 of
           (s2, w2) \<Rightarrow> (counters s1, counters s2))) =
   ([(''x'', \<lparr>double_value = 1, interval = \<lparr>start_time = Some 10, end_time = None\<rparr>\<rparr>)],
    [(''x'', \<lparr>double_value = 2, interval = \<lparr>start_time = Some 20, end_time = None\<rparr>\<rparr>)])"
  by (simp add: example_defs metrics_defs)

text \<open>
  C6. After a successful \<open>push_metrics\<close> both dictionaries are empty, so one increment of
  any counter \<open>c\<close> afterwards leaves exactly the entry \<open>c\<close> with value 1 (started at the
  clock reading of that increment), whatever \<open>c\<close> had accumulated before the flush.
\<close>

theorem counter_restarts_after_flush:
  assumes "push_metrics s w = (Inr (), s', w')"
  shows "counters s' = [] \<and> gauges s' = [] \<and>
         counters (fst (increment s' c w'')) =
           [(c, \<lparr>double_value = 1,
                 interval = \<lparr>start_time = Some (wall w'' (reads w'')), end_time = None\<rparr>\<rparr>)]"
proof -
  obtain req s1 w1 where r: "series_request s w = (req, s1, w1)"
    by (metis prod.exhaust)
  from assms have "s' = s1\<lparr>counters := [], gauges := []\<rparr>"
    unfolding push_metrics_cases [OF r] by (auto split: prod.splits sum.splits)
  then have e: "counters s' = []" "gauges s' = []" by simp_all
  then show ?thesis by (simp add: increment_def now_def Point_def)
qed

text \<open>
  C6 at a concrete input: the counter \<open>c\<close> stands at 5 when the backend accepts the
  flush; the next increment of \<open>c\<close> gives 1.
\<close>

theorem counter_restarts_after_flush_witness:
  "fst (push_metrics
         ((example_metrics accepting_sink)
            \<lparr>counters := [(''c'', \<lparr>double_value = 5,
                 interval = \<lparr>start_time = Some 4, end_time = None\<rparr>\<rparr>)]\<rparr>)
         example_world) = Inr () \<and>
   map (\<lambda>e. (fst e, double_value (snd e)))
     (counters (fst (increment
        (fst (snd (push_metrics
           ((example_metrics accepting_sink)
              \<lparr>counters := [(''c'', \<lparr>double_value = 5,
                   interval = \<lparr>start_time = Some 4, end_time = None\<rparr>\<rparr>)]\<rparr>)
           example_world))) ''c''
        (snd (snd (push_metrics
           ((example_metrics accepting_sink)
              \<lparr>counters := [(''c'', \<lparr>double_value = 5,
                   interval = \<lparr>start_time = Some 4, end_time = None\<rparr>\<rparr>)]\<rparr>)
           example_world)))))) =
     [(''c'', 1)]"
proof -
  let ?p = "push_metrics
         ((example_metrics accepting_sink)
            \<lparr>counters := [(''c'', \<lparr>double_value = 5,
                 interval = \<lparr>start_time = Some 4, end_time = None\<rparr>\<rparr>)]\<rparr>)
         example_world"
  have r: "fst ?p = Inr ()" by (simp add: all_defs)
  then have "?p = (Inr (), fst (snd ?p), snd (snd ?p))"
    by (simp add: prod_eq_iff)
  from counter_restarts_after_flush [OF this, of "''c''" "snd (snd ?p)"] r show ?thesis
    by simp
qed

subsection \<open>Failures\<close>

text \<open>
  C2, as claimed: a failed submission does not leave the flush cycle and the loop goes on
  to the next wait. It does not hold: \<open>push_metrics\<close> raises the error again and \<open>run\<close>
  has no handler. With a backend that refuses every request and two sleeps scheduled,
  each with one increment of \<open>a\<close>, \<open>run\<close> ends with the backend's error in the first
  iteration: one request was sent and the second sleep never began.
\<close>

theorem run_dies_on_sink_failure:
  "(case run [[CallIncrement ''a''], [CallIncrement ''a'']]
           (example_metrics failing_sink) example_world of
      (r, s, w) \<Rightarrow> (r, map fst (counters s), length (sent w), ext w)) =
   (Inl (GoogleAPIError ''unavailable''), [''a''], 1, [''refused''])"
  by (simp add: example_defs metrics_defs)

text \<open>
  C2, amended: a failure of an iteration ends the loop with that failure, whatever is
  scheduled afterwards. When a gauge callback raises \<open>e\<close> during sampling, \<open>run\<close> raises \<open>e\<close>
  with the state sampling left; when sampling succeeds, something is pending and the
  backend client raises \<open>e\<close> on the request, \<open>run\<close> raises \<open>e\<close> after that one call.
\<close>

theorem run_failure_ends_loop:
  assumes "asyncio_sleep calls s w = (s1, w1)"
  shows "(query_gauges s1 w1 = (Inl e, s2, w2) \<longrightarrow>
            run (calls # schedule) s w = (Inl e, s2, w2)) \<and>
         (query_gauges s1 w1 = (Inr (), s2, w2) \<and> (counters s2 \<noteq> [] \<or> gauges s2 \<noteq> []) \<and>
          series_request s2 w2 = (req, s3, w3) \<and> client s2 req (ext w3) = (Inl e, x) \<longrightarrow>
            run (calls # schedule) s w = (Inl e, s3, w3\<lparr>sent := sent w3 @ [req], ext := x\<rparr>))"
proof (intro conjI impI)
  assume "query_gauges s1 w1 = (Inl e, s2, w2)"
  with assms show "run (calls # schedule) s w = (Inl e, s2, w2)" by simp
next
  assume a: "query_gauges s1 w1 = (Inr (), s2, w2) \<and> (counters s2 \<noteq> [] \<or> gauges s2 \<noteq> []) \<and>
          series_request s2 w2 = (req, s3, w3) \<and> client s2 req (ext w3) = (Inl e, x)"
  then have "push_metrics s2 w2 = (Inl e, s3, w3\<lparr>sent := sent w3 @ [req], ext := x\<rparr>)"
    by (simp add: push_metrics_cases)
  with a assms
  show "run (calls # schedule) s w = (Inl e, s3, w3\<lparr>sent := sent w3 @ [req], ext := x\<rparr>)"
    by auto
qed

text \<open>
  C2 amended, at concrete inputs: a callback that raises, and a backend that refuses.
\<close>

theorem run_failure_ends_loop_witness:
  "fst (run [[], [CallIncrement ''a'']]
          (gauge ''bad'' fn_bad (example_metrics accepting_sink)) example_world) =
     Inl (OtherException ''bad'') \<and>
   fst (run [[CallIncrement ''a''], [CallIncrement ''a'']]
          (example_metrics failing_sink) example_world) =
     Inl (GoogleAPIError ''unavailable'')"
proof -
  let ?S = "gauge ''bad'' fn_bad (example_metrics accepting_sink)"
  have sl: "asyncio_sleep [] ?S example_world = (?S, example_world)" by simp
  have q: "query_gauges ?S example_world =
      (Inl (OtherException ''bad''), fst (snd (query_gauges ?S example_world)),
       snd (snd (query_gauges ?S example_world)))"
    by (simp add: all_defs)
  from run_failure_ends_loop [OF sl, THEN conjunct1, rule_format, OF q]
  have a: "fst (run [[], [CallIncrement ''a'']] ?S example_world) = Inl (OtherException ''bad'')"
    by simp
  let ?T = "example_metrics failing_sink"
  let ?sl = "asyncio_sleep [CallIncrement ''a''] ?T example_world"
  let ?q = "query_gauges (fst ?sl) (snd ?sl)"
  let ?sr = "series_request (fst (snd ?q)) (snd (snd ?q))"
  have sl': "?sl = (fst ?sl, snd ?sl)" by simp
  have q': "?q = (Inr (), fst (snd ?q), snd (snd ?q))"
    by (simp add: all_defs)
  have pend: "counters (fst (snd ?q)) \<noteq> [] \<or> gauges (fst (snd ?q)) \<noteq> []"
    by (simp add: all_defs)
  have sr: "?sr = (fst ?sr, fst (snd ?sr), snd (snd ?sr))" by simp
  have cl: "client (fst (snd ?q)) (fst ?sr) (ext (snd (snd ?sr))) =
      (Inl (GoogleAPIError ''unavailable''), [''refused''])"
    by (simp add: all_defs)
  from run_failure_ends_loop [OF sl', THEN conjunct2, rule_format,
      OF conjI [OF q' conjI [OF pend conjI [OF sr cl]]]]
  have "fst (run [[CallIncrement ''a''], [CallIncrement ''a'']] ?T example_world) =
      Inl (GoogleAPIError ''unavailable'')"
    by simp
  with a show ?thesis by simp
qed

text \<open>
  C3, as claimed: after a flush whose submission fails, both dictionaries are empty. It
  does not hold: the two assignments that clear them come after the call of the client
  and are skipped when it raises. With \<open>a = 3\<close> and \<open>b = 7.5\<close> pending and a backend that
  refuses, both entries are still there after \<open>push_metrics\<close>, with \<open>end_time\<close> stamped.
\<close>

theorem failed_push_does_not_clear:
  "(case push_metrics (pending_metrics failing_sink) example_world of
      (r, s, w) \<Rightarrow> (r, counters s, gauges s)) =
   (Inl (GoogleAPIError ''unavailable''),
    [(''a'', \<lparr>double_value = 3, interval = \<lparr>start_time = Some 4, end_time = Some 10\<rparr>\<rparr>)],
    [(''b'', \<lparr>double_value = 15 / 2, interval = \<lparr>start_time = None, end_time = Some 20\<rparr>\<rparr>)])"
  by (simp add: all_defs)

text \<open>
  C3, amended: after a \<open>push_metrics\<close> whose submission fails, the counters and the
  gauges hold the same names, in the same order, with the same values and start times as
  before the call; nothing is dropped (only \<open>end_time\<close> was stamped).
\<close>

theorem failed_push_keeps_state:
  assumes "push_metrics s w = (Inl e, s', w')"
  shows "map (\<lambda>e. (fst e, double_value (snd e), start_time (interval (snd e)))) (counters s') =
         map (\<lambda>e. (fst e, double_value (snd e), start_time (interval (snd e)))) (counters s) \<and>
         map (\<lambda>e. (fst e, double_value (snd e), start_time (interval (snd e)))) (gauges s') =
         map (\<lambda>e. (fst e, double_value (snd e), start_time (interval (snd e)))) (gauges s)"
proof -
  obtain req s1 w1 where r: "series_request s w = (req, s1, w1)"
    by (metis prod.exhaust)
  from assms have "s' = s1"
    unfolding push_metrics_cases [OF r] by (auto split: prod.splits sum.splits)
  with series_request_kept [OF r] show ?thesis by simp
qed

text \<open>
  C3 amended, at the input of the counterexample.
\<close>

theorem failed_push_keeps_state_witness:
  "fst (push_metrics (pending_metrics failing_sink) example_world) =
     Inl (GoogleAPIError ''unavailable'') \<and>
   map (\<lambda>e. (fst e, double_value (snd e), start_time (interval (snd e))))
     (counters (fst (snd (push_metrics (pending_metrics failing_sink) example_world)))) =
     [(''a'', 3, Some 4)] \<and>
   map (\<lambda>e. (fst e, double_value (snd e), start_time (interval (snd e))))
     (gauges (fst (snd (push_metrics (pending_metrics failing_sink) example_world)))) =
     [(''b'', 15 / 2, None)]"
proof -
  let ?p = "push_metrics (pending_metrics failing_sink) example_world"
  have r: "fst ?p = Inl (GoogleAPIError ''unavailable'')"
    by (simp add: all_defs)
  then have "?p = (Inl (GoogleAPIError ''unavailable''), fst (snd ?p), snd (snd ?p))"
    by (simp add: prod_eq_iff)
  from failed_push_keeps_state [OF this] r show ?thesis
    by (simp add: pending_metrics_def)
qed

subsection \<open>The batch\<close>

text \<open>
  C4. With exactly the counter \<open>a\<close> at 3 and the gauge \<open>b\<close> at 7.5 pending,
  \<open>push_metrics\<close> hands the client one request, whose batch is exactly two records: a
  CUMULATIVE one for \<open>custom.googleapis.com/a\<close> with one point of value 3, then a GAUGE
  one for \<open>custom.googleapis.com/b\<close> with one point of value 7.5; both carry the resource
  type and the five labels of the uploader's \<open>resource_data\<close>. This holds whether the
  client accepts the request or not.
\<close>

theorem push_metrics_batch:
  assumes "counters s = [(''a'', pa)]" and "double_value pa = 3"
    and "gauges s = [(''b'', pb)]" and "double_value pb = 15 / 2"
    and "push_metrics s w = (r, s', w')"
  shows "sent w' = sent w @
     [\<lparr>request_name = common_project_path (project_id s),
       time_series =
          [\<lparr>metric_type = ''custom.googleapis.com/a'', metric_kind = CUMULATIVE,
            resource = \<lparr>mr_type = resource_type (resource_data s),
              mr_labels = [''cluster_name'' \<mapsto> cluster_name (resource_data s),
                           ''namespace_name'' \<mapsto> namespace_name (resource_data s),
                           ''location'' \<mapsto> location (resource_data s),
                           ''container_name'' \<mapsto> container_name (resource_data s),
                           ''pod_name'' \<mapsto> pod_name (resource_data s)]\<rparr>,
            points = [\<lparr>double_value = 3,
                       interval = \<lparr>start_time = start_time (interval pa),
                                   end_time = Some (wall w (reads w))\<rparr>\<rparr>]\<rparr>,
           \<lparr>metric_type = ''custom.googleapis.com/b'', metric_kind = GAUGE,
            resource = \<lparr>mr_type = resource_type (resource_data s),
              mr_labels = [''cluster_name'' \<mapsto> cluster_name (resource_data s),
                           ''namespace_name'' \<mapsto> namespace_name (resource_data s),
                           ''location'' \<mapsto> location (resource_data s),
                           ''container_name'' \<mapsto> container_name (resource_data s),
                           ''pod_name'' \<mapsto> pod_name (resource_data s)]\<rparr>,
            points = [\<lparr>double_value = 15 / 2,
                       interval = \<lparr>start_time = start_time (interval pb),
                                   end_time = Some (wall w (Suc (reads w)))\<rparr>\<rparr>]\<rparr>]\<rparr>]"
proof -
  obtain req s1 w1 where sr: "series_request s w = (req, s1, w1)"
    by (metis prod.exhaust)
  from sr assms(1-4) have ts: "req =
      \<lparr>request_name = common_project_path (project_id s),
       time_series =
          [\<lparr>metric_type = ''custom.googleapis.com/a'', metric_kind = CUMULATIVE,
            resource = \<lparr>mr_type = resource_type (resource_data s),
              mr_labels = [''cluster_name'' \<mapsto> cluster_name (resource_data s),
                           ''namespace_name'' \<mapsto> namespace_name (resource_data s),
                           ''location'' \<mapsto> location (resource_data s),
                           ''container_name'' \<mapsto> container_name (resource_data s),
                           ''pod_name'' \<mapsto> pod_name (resource_data s)]\<rparr>,
            points = [\<lparr>double_value = 3,
                       interval = \<lparr>start_time = start_time (interval pa),
                                   end_time = Some (wall w (reads w))\<rparr>\<rparr>]\<rparr>,
           \<lparr>metric_type = ''custom.googleapis.com/b'', metric_kind = GAUGE,
            resource = \<lparr>mr_type = resource_type (resource_data s),
              mr_labels = [''cluster_name'' \<mapsto> cluster_name (resource_data s),
                           ''namespace_name'' \<mapsto> namespace_name (resource_data s),
                           ''location'' \<mapsto> location (resource_data s),
                           ''container_name'' \<mapsto> container_name (resource_data s),
                           ''pod_name'' \<mapsto> pod_name (resource_data s)]\<rparr>,
            points = [\<lparr>double_value = 15 / 2,
                       interval = \<lparr>start_time = start_time (interval pb),
                                   end_time = Some (wall w (Suc (reads w)))\<rparr>\<rparr>]\<rparr>]\<rparr>"
    by (auto simp: series_request_def make_time_series_eq METRIC_BASE_def)
  from assms(5) have "sent w' = sent w1 @ [req]"
    unfolding push_metrics_cases [OF sr] by (auto split: prod.splits sum.splits)
  with series_request_sent [OF sr] ts show ?thesis by simp
qed

text \<open>
  C4 at a concrete input.
\<close>

theorem push_metrics_batch_witness:
  "map (\<lambda>ts. (metric_type ts, metric_kind ts, map double_value (points ts),
              mr_type (resource ts), mr_labels (resource ts) ''namespace_name''))
     (time_series (last (sent (snd (snd (push_metrics (pending_metrics accepting_sink)
        example_world)))))) =
   [(''custom.googleapis.com/a'', CUMULATIVE, [3], ''k8s_container'', Some ''default''),
    (''custom.googleapis.com/b'', GAUGE, [15 / 2], ''k8s_container'', Some ''default'')] \<and>
   length (sent (snd (snd (push_metrics (pending_metrics accepting_sink) example_world)))) = 1"
proof -
  let ?S = "pending_metrics accepting_sink"
  let ?p = "push_metrics ?S example_world"
  let ?pa = "\<lparr>double_value = 3, interval = \<lparr>start_time = Some 4, end_time = None\<rparr>\<rparr>"
  let ?pb = "\<lparr>double_value = 15 / 2, interval = \<lparr>start_time = None, end_time = None\<rparr>\<rparr>"
  have c: "counters ?S = [(''a'', ?pa)]" and g: "gauges ?S = [(''b'', ?pb)]"
    by (simp_all add: pending_metrics_def)
  have va: "double_value ?pa = 3" and vb: "double_value ?pb = 15 / 2" by simp_all
  have p: "?p = (fst ?p, fst (snd ?p), snd (snd ?p))" by simp
  from push_metrics_batch [OF c va g vb p] show ?thesis
    by (simp add: pending_metrics_def example_defs)
qed

text \<open>
  C5, as claimed: the point of every GAUGE record has \<open>start_time\<close> equal to \<open>end_time\<close>,
  both the flush time. It does not hold: nothing assigns the \<open>start_time\<close> of a gauge
  point. Sampling the gauge \<open>b\<close> on a fresh uploader and building the request gives a
  GAUGE record whose interval has \<open>end_time\<close> 10 and no \<open>start_time\<close>.
\<close>

theorem gauge_record_has_no_start_time:
  "(case query_gauges (gauge ''b'' fn_b (example_metrics accepting_sink)) example_world of
      (r, s1, w1) \<Rightarrow>
        (case series_request s1 w1 of
           (req, s2, w2) \<Rightarrow>
             map (\<lambda>ts. (metric_kind ts, map interval (points ts))) (time_series req))) =
   [(GAUGE, [\<lparr>start_time = None, end_time = Some 10\<rparr>])]"
  by (simp add: example_defs metrics_defs)

text \<open>
  C5, amended: every gauge entry pending at the flush (the \<open>i\<close>-th of the dictionary)
  becomes a GAUGE record, placed after the counters' records, with the entry's name and
  one point that holds the entry's value, an \<open>end_time\<close> that is the clock reading taken
  when that record is built, and no \<open>start_time\<close>. The hypothesis \<open>never_started\<close> holds of
  every gauge dictionary the uploader builds, as the last section shows.
\<close>

theorem gauge_record_interval:
  assumes "series_request s w = (req, s', w')" and "i < length (gauges s)"
    and "never_started (gauges s)"
  shows "length (time_series req) = length (counters s) + length (gauges s) \<and>
         metric_kind (time_series req ! (length (counters s) + i)) = GAUGE \<and>
         metric_type (time_series req ! (length (counters s) + i)) =
           METRIC_BASE @ ''/'' @ fst (gauges s ! i) \<and>
         points (time_series req ! (length (counters s) + i)) =
           [\<lparr>double_value = double_value (snd (gauges s ! i)),
             interval = \<lparr>start_time = None,
                         end_time = Some (wall w (reads w + length (counters s) + i))\<rparr>\<rparr>]"
proof -
  from assms(2,3) have "start_time (interval (snd (gauges s ! i))) = None"
    by (simp add: never_started_def list_all_length)
  with gauge_series_nth [OF assms(1,2)] show ?thesis
    by (simp add: make_time_series_eq)
qed

text \<open>
  C5 amended, at a concrete input: the gauge record is the second of the batch and its
  clock reading is the second one, 20.
\<close>

theorem gauge_record_interval_witness:
  "never_started (gauges (pending_metrics accepting_sink)) \<and>
   map interval (points (time_series
      (fst (series_request (pending_metrics accepting_sink) example_world)) ! 1)) =
     [\<lparr>start_time = None, end_time = Some 20\<rparr>]"
proof -
  let ?S = "pending_metrics accepting_sink"
  let ?r = "series_request ?S example_world"
  have r: "?r = (fst ?r, fst (snd ?r), snd (snd ?r))" by simp
  have i: "0 < length (gauges ?S)" by (simp add: pending_metrics_def)
  have n: "never_started (gauges ?S)" by (simp add: pending_metrics_def never_started_def)
  from gauge_record_interval [OF r i n] n show ?thesis
    by (simp add: pending_metrics_def example_defs)
qed

subsection \<open>Empty cycles\<close>

text \<open>
  C7. When, after the sleep and the sampling of an iteration, both dictionaries are
  empty, the iteration calls no client: \<open>run\<close> goes on with the state and the world that
  sampling left, and the list of requests sent is what it was before the iteration. A
  second iteration with nothing happening during its sleep does the same, and the loop
  is still running without an error.
\<close>

theorem empty_cycle_sends_nothing:
  assumes "asyncio_sleep calls s w = (s1, w1)"
    and "query_gauges s1 w1 = (Inr (), s2, w2)"
    and "counters s2 = []" and "gauges s2 = []"
  shows "run (calls # schedule) s w = run schedule s2 w2 \<and> sent w2 = sent w \<and>
         run [calls, []] s w = (Inr (), s2, w2)"
proof -
  from assms have step: "\<And>sch. run (calls # sch) s w = run sch s2 w2"
    by simp
  from asyncio_sleep_sent [OF assms(1)] query_gauges_sent [OF assms(2)]
  have snt: "sent w2 = sent w" by simp
  from query_gauges_idle [OF assms(2,4)] assms(2)
  have "query_gauges s2 w2 = (Inr (), s2, w2)" by simp
  with assms(3,4) have "run [[]] s2 w2 = (Inr (), s2, w2)" by simp
  with step [of "[[]]"] step [of schedule] snt show ?thesis by simp
qed

text \<open>
  C7 at a concrete input: two iterations of a fresh uploader.
\<close>

theorem empty_cycle_sends_nothing_witness:
  "fst (run [[], []] (example_metrics accepting_sink) example_world) = Inr () \<and>
   sent (snd (snd (run [[], []] (example_metrics accepting_sink) example_world))) = [] \<and>
   ext (snd (snd (run [[], []] (example_metrics accepting_sink) example_world))) = []"
proof -
  let ?S = "example_metrics accepting_sink"
  have sl: "asyncio_sleep [] ?S example_world = (?S, example_world)" by simp
  have q: "query_gauges ?S example_world = (Inr (), ?S, example_world)"
    by (simp add: all_defs)
  have c: "counters ?S = []" and g: "gauges ?S = []" by (simp_all add: example_defs)
  from empty_cycle_sends_nothing [OF sl q c g] show ?thesis
    by (simp add: example_world_def)
qed

subsection \<open>Gauges\<close>

text \<open>
  C8. Registering \<open>g\<close> with \<open>A\<close> and then with \<open>B\<close> leaves the uploader as registering
  \<open>B\<close> alone would: \<open>A\<close> is no longer anywhere in the state, so it can be neither called
  nor recorded. When the following sampling succeeds, the value recorded under \<open>g\<close> is a
  value that \<open>B\<close> returned; when nothing else was registered, it is what \<open>B\<close> returned on
  the world the sampling started from, and the world afterwards is the one \<open>B\<close> left.
\<close>

theorem gauge_last_write_wins:
  assumes "distinct (map fst (gauge_callbacks s))"
    and "query_gauges (gauge g B (gauge g A s)) w = (Inr (), s', w')"
  shows "gauge g B (gauge g A s) = gauge g B s \<and>
         (\<exists>p x x'. map_of (gauges s') g = Some p \<and> B x = (Inr (double_value p), x')) \<and>
         (gauge_callbacks s = [] \<longrightarrow>
            (\<exists>p. map_of (gauges s') g = Some p \<and> B (ext w) = (Inr (double_value p), ext w')))"
proof -
  have eq: "gauge g B (gauge g A s) = gauge g B s"
    by (simp add: gauge_def dict_set_twice)
  let ?cbs = "dict_set g B (gauge_callbacks s)"
  from assms(2) have "query_gauges (gauge g B s) w = (Inr (), s', w')"
    by (simp only: eq)
  then obtain gs x
    where l: "query_gauges_loop ?cbs (gauges s) (ext w) = (Inr (), gs, x)"
      and s': "gauges s' = gs" and w': "ext w' = x"
    by (auto simp: query_gauges_def gauge_def split: prod.splits)
  have "distinct (map fst ?cbs)" and "(g, B) \<in> set ?cbs"
    using assms(1) by (simp_all add: dict_set_distinct dict_set_mem)
  from query_gauges_loop_records [OF this l] s'
  have rec: "\<exists>p x x'. map_of (gauges s') g = Some p \<and> B x = (Inr (double_value p), x')"
    by simp
  have "\<exists>p. map_of (gauges s') g = Some p \<and> B (ext w) = (Inr (double_value p), ext w')"
    if "gauge_callbacks s = []"
  proof -
    obtain y x1 where b: "B (ext w) = (y, x1)" by (metis prod.exhaust)
    with l that obtain v where y: "y = Inr v" by (cases y) auto
    with b l that have gs: "gs = dict_modify Point (\<lambda>p. p\<lparr>double_value := v\<rparr>) g (gauges s)"
      and x: "x = x1"
      by simp_all
    have "map_of gs g =
        Some ((case map_of (gauges s) g of None \<Rightarrow> Point | Some q \<Rightarrow> q)\<lparr>double_value := v\<rparr>)"
      unfolding gs by (rule map_of_dict_modify_same)
    with b y x s' w' show ?thesis by simp
  qed
  with eq rec show ?thesis by simp
qed

text \<open>
  C8 at a concrete input: \<open>A\<close> would record 1 and log its call, \<open>B\<close> records 2 and logs
  its call; the log holds the call of \<open>B\<close> only.
\<close>

theorem gauge_last_write_wins_witness:
  "(case query_gauges (gauge ''g'' fn_B (gauge ''g'' fn_A (example_metrics accepting_sink)))
          example_world of
      (r, s', w') \<Rightarrow> (r, map (\<lambda>e. (fst e, double_value (snd e))) (gauges s'), ext w')) =
   (Inr (), [(''g'', 2)], [''B called''])"
proof -
  let ?S = "example_metrics accepting_sink"
  let ?q = "query_gauges (gauge ''g'' fn_B (gauge ''g'' fn_A ?S)) example_world"
  have d: "distinct (map fst (gauge_callbacks ?S))" by (simp add: example_defs)
  have "fst ?q = Inr ()" by (simp add: all_defs)
  then have "?q = (Inr (), fst (snd ?q), snd (snd ?q))"
    by (simp add: prod_eq_iff)
  from gauge_last_write_wins [OF d this] show ?thesis
    by (simp add: all_defs)
qed

text \<open>
  C9. When the callbacks before \<open>bad\<close> in iteration order succeed and the callback of
  \<open>bad\<close> raises \<open>e\<close>, \<open>query_gauges\<close> raises \<open>e\<close>; the gauges are those the earlier callbacks
  recorded and the world is the one the failing callback left, so no callback after
  \<open>bad\<close> was called or recorded.
\<close>

theorem query_gauges_fail_fast:
  assumes "gauge_callbacks s = pre @ (bad, f) # post"
    and "query_gauges_loop pre (gauges s) (ext w) = (Inr (), g1, x1)"
    and "f x1 = (Inl e, x2)"
  shows "query_gauges s w = (Inl e, s\<lparr>gauges := g1\<rparr>, w\<lparr>ext := x2\<rparr>)"
  using query_gauges_loop_fail_fast [of pre "gauges s" "ext w" g1 x1 f e x2 bad post] assms
  by (simp add: query_gauges_def)

text \<open>
  C9 at a concrete input: \<open>early\<close>, \<open>bad\<close> and \<open>late\<close> are registered in this order.
\<close>

theorem query_gauges_fail_fast_witness:
  "(case query_gauges
          (gauge ''late'' fn_B (gauge ''bad'' fn_bad (gauge ''early'' fn_A
             (example_metrics accepting_sink)))) example_world of
      (r, s', w') \<Rightarrow> (r, map (\<lambda>e. (fst e, double_value (snd e))) (gauges s'), ext w')) =
   (Inl (OtherException ''bad''), [(''early'', 1)], [''A called'', ''bad called''])"
proof -
  let ?S = "gauge ''late'' fn_B (gauge ''bad'' fn_bad (gauge ''early'' fn_A
             (example_metrics accepting_sink)))"
  have cb: "gauge_callbacks ?S = [(''early'', fn_A)] @ (''bad'', fn_bad) # [(''late'', fn_B)]"
    by (simp add: gauge_def example_metrics_def Metrics_def)
  have pre: "query_gauges_loop [(''early'', fn_A)] (gauges ?S) (ext example_world) =
      (Inr (), [(''early'', Point\<lparr>double_value := 1\<rparr>)], [''A called''])"
    by (simp add: gauge_def example_metrics_def Metrics_def example_world_def fn_A_def)
  have bad: "fn_bad [''A called''] = (Inl (OtherException ''bad''), [''A called'', ''bad called''])"
    by (simp add: fn_bad_def)
  from query_gauges_fail_fast [OF cb pre bad] show ?thesis
    by (simp add: Point_def)
qed

text \<open>
  C10. Whatever its outcome, \<open>query_gauges\<close> changes no field of the uploader but
  \<open>gauges\<close> (the counters, the callbacks, the client and the identity stay), and in
  \<open>gauges\<close> every entry whose name has no registered callback stays as it was, in
  place.
\<close>

theorem query_gauges_frame:
  assumes "query_gauges s w = (r, s', w')"
  shows "counters s' = counters s \<and> gauge_callbacks s' = gauge_callbacks s \<and>
         s' = s\<lparr>gauges := gauges s'\<rparr> \<and>
         (\<forall>n. n \<notin> fst ` set (gauge_callbacks s) \<longrightarrow> map_of (gauges s') n = map_of (gauges s) n) \<and>
         filter (\<lambda>e. fst e \<notin> fst ` set (gauge_callbacks s)) (gauges s') =
         filter (\<lambda>e. fst e \<notin> fst ` set (gauge_callbacks s)) (gauges s)"
proof -
  obtain g x where l: "query_gauges_loop (gauge_callbacks s) (gauges s) (ext w) = (r, g, x)"
    and s': "s' = s\<lparr>gauges := g\<rparr>"
    using assms by (auto simp: query_gauges_def split: prod.splits)
  from s' have g: "gauges s' = g" by simp
  have "map_of g n = map_of (gauges s) n" if "n \<notin> fst ` set (gauge_callbacks s)" for n
    using query_gauges_loop_map_of [OF that l] .
  moreover have "filter (\<lambda>e. fst e \<notin> fst ` set (gauge_callbacks s)) g =
         filter (\<lambda>e. fst e \<notin> fst ` set (gauge_callbacks s)) (gauges s)"
    using query_gauges_loop_frame [OF subset_refl l] .
  ultimately show ?thesis using s' g by simp
qed

text \<open>
  C10 at a concrete input: \<open>b\<close> is pending and has no callback, \<open>g\<close> has one.
\<close>

theorem query_gauges_frame_witness:
  "''b'' \<notin> fst ` set (gauge_callbacks (gauge ''g'' fn_A (pending_metrics accepting_sink))) \<and>
   (case query_gauges (gauge ''g'' fn_A (pending_metrics accepting_sink)) example_world of
      (r, s', w') \<Rightarrow>
        (r, map_of (gauges s') ''b'', map fst (gauges s'), counters s' = counters (pending_metrics accepting_sink),
         map fst (gauge_callbacks s'))) =
   (Inr (), Some \<lparr>double_value = 15 / 2, interval = \<lparr>start_time = None, end_time = None\<rparr>\<rparr>,
    [''b'', ''g''], True, [''g''])"
proof -
  let ?S = "gauge ''g'' fn_A (pending_metrics accepting_sink)"
  let ?q = "query_gauges ?S example_world"
  have q: "?q = (fst ?q, fst (snd ?q), snd (snd ?q))" by simp
  have n: "''b'' \<notin> fst ` set (gauge_callbacks ?S)" by (simp add: gauge_def all_defs)
  from query_gauges_frame [OF q] have "map_of (gauges (fst (snd ?q))) ''b'' = map_of (gauges ?S) ''b''"
    using n by blast
  with n show ?thesis
    by (simp add: all_defs)
qed

section \<open>Further properties\<close>

text \<open>
  No operation of the uploader assigns the \<open>start_time\<close> of a gauge point: the gauges of
  a new uploader satisfy \<open>never_started\<close>, and it is kept by any number of iterations of
  \<open>run\<close>, with any calls of other tasks during the sleeps, whether the loop ends with a
  failure or not.
\<close>

theorem gauge_start_time_never_set:
  "never_started (gauges (Metrics pid rd cl)) \<and>
   (never_started (gauges s) \<and> run schedule s w = (r, s', w') \<longrightarrow> never_started (gauges s'))"
proof -
  have "never_started (gauges s') " if "never_started (gauges s)" "run schedule s w = (r, s', w')"
    using that
  proof (induction schedule arbitrary: s w)
    case Nil
    then show ?case by simp
  next
    case (Cons calls schedule)
    obtain s1 w1 where sl: "asyncio_sleep calls s w = (s1, w1)" by (metis prod.exhaust)
    obtain q s2 w2 where qg: "query_gauges s1 w1 = (q, s2, w2)" by (metis prod.exhaust)
    from Cons.prems(1) asyncio_sleep_gauges [OF sl] have "never_started (gauges s1)" by simp
    from query_gauges_never_started [OF this qg] have n2: "never_started (gauges s2)" .
    show ?case
    proof (cases q)
      case (Inl e)
      with Cons.prems(2) sl qg n2 show ?thesis by simp
    next
      case (Inr u)
      show ?thesis
      proof (cases "length (counters s2) > 0 \<or> length (gauges s2) > 0")
        case False
        with Inr Cons.prems(2) sl qg have "run schedule s2 w2 = (r, s', w')" by simp
        from Cons.IH [OF n2 this] show ?thesis .
      next
        case True
        obtain p s3 w3 where pm: "push_metrics s2 w2 = (p, s3, w3)" by (metis prod.exhaust)
        from push_metrics_never_started [OF n2 pm] have n3: "never_started (gauges s3)" .
        show ?thesis
        proof (cases p)
          case (Inl e)
          with True Inr Cons.prems(2) sl qg pm n3 show ?thesis by auto
        next
          case Inr': (Inr u')
          with True Inr Cons.prems(2) sl qg pm have "run schedule s3 w3 = (r, s', w')" by auto
          from Cons.IH [OF n3 this] show ?thesis .
        qed
      qed
    qed
  qed
  then show ?thesis by (simp add: Metrics_def never_started_def)
qed

text \<open>
  At a concrete input: a gauge registered during the first sleep, and a backend that
  refuses.
\<close>

theorem gauge_start_time_never_set_witness:
  "never_started (gauges (example_metrics failing_sink)) \<and>
   fst (run [[CallGauge ''b'' fn_b], []] (example_metrics failing_sink) example_world) =
     Inl (GoogleAPIError ''unavailable'') \<and>
   gauges (fst (snd (run [[CallGauge ''b'' fn_b], []] (example_metrics failing_sink)
      example_world))) =
     [(''b'', \<lparr>double_value = 15 / 2, interval = \<lparr>start_time = None, end_time = Some 10\<rparr>\<rparr>)] \<and>
   never_started (gauges (fst (snd (run [[CallGauge ''b'' fn_b], []]
      (example_metrics failing_sink) example_world))))"
proof -
  let ?r = "run [[CallGauge ''b'' fn_b], []] (example_metrics failing_sink) example_world"
  have n: "never_started (gauges (example_metrics failing_sink))"
    by (simp add: example_defs never_started_def)
  have r: "?r = (fst ?r, fst (snd ?r), snd (snd ?r))" by simp
  from gauge_start_time_never_set [THEN conjunct2, rule_format, OF conjI [OF n r]] n
  show ?thesis
    by (simp add: all_defs)
qed

text \<open>
  One call of \<open>increment\<close> adds 1 to the counter of that name, starting from 0 when the
  name is new, stamps its \<open>start_time\<close> with the clock reading of the call, and leaves the
  other counters, the gauges and the callbacks as they were.
\<close>

theorem increment_adds_one:
  "map_of (counters (fst (increment s n w))) n =
     Some \<lparr>double_value = (case map_of (counters s) n of None \<Rightarrow> 0 | Some p \<Rightarrow> double_value p) + 1,
           interval = \<lparr>start_time = Some (wall w (reads w)),
                       end_time = (case map_of (counters s) n of None \<Rightarrow> None
                                   | Some p \<Rightarrow> end_time (interval p))\<rparr>\<rparr> \<and>
   (m \<noteq> n \<longrightarrow> map_of (counters (fst (increment s n w))) m = map_of (counters s) m) \<and>
   gauges (fst (increment s n w)) = gauges s \<and>
   gauge_callbacks (fst (increment s n w)) = gauge_callbacks s"
  by (auto simp: increment_def now_def Let_def map_of_dict_modify_same map_of_dict_modify_other
      Point_def split: option.splits)

text \<open>
  At a concrete input.
\<close>

theorem increment_adds_one_witness:
  "''b'' \<noteq> ''a'' \<and>
   map_of (counters (fst (increment (pending_metrics accepting_sink) ''a'' example_world))) ''a'' =
     Some \<lparr>double_value = 4, interval = \<lparr>start_time = Some 10, end_time = None\<rparr>\<rparr> \<and>
   map_of (counters (fst (increment (pending_metrics accepting_sink) ''a'' example_world))) ''b'' =
     None"
  using increment_adds_one [of "pending_metrics accepting_sink" "''a''" example_world "''b''"]
  by (simp add: pending_metrics_def example_defs)

end
